theory Spec2Isabelle
  imports Complex_Main "HOL-Library.Word" "HOL-Library.AList"
begin

section \<open>Strings of the two pipelines\<close>

text \<open>
  A JavaScript string is a sequence of UTF-16 code units; \<open>length\<close> and \<open>slice\<close>
  count code units.  The paginator never looks at the units, so it is modelled over
  lists of any element type.  The compression stage tests units against the regular
  expression class \<open>\s\<close>, so it is modelled over 16-bit words.  The request pipeline
  (cookies, headers, curl command) compares, concatenates and percent-encodes strings;
  there a HOL \<open>string\<close> holds the bytes of the UTF-8 form of the text.

  The numbers \<open>offset\<close> and \<open>maxLength\<close> are the finite JavaScript numbers that
  \<open>z.number()\<close> accepts: negative ones and fractions such as 1.5 included, not NaN.
  They are modelled as rationals, with exact addition; the rounding of doubles is not
  modelled.
\<close>

type_synonym code_unit = "16 word"
type_synonym jsstring = "code_unit list"
type_synonym number = rat

section \<open>Paginator (htmlsource.ts, lines 146 to 174)\<close>

record 'a HtmlSourceResponse =
  content :: "'a list"
  totalLength :: int
  hasMore :: bool
  actualOffset :: number
  actualLength :: int

text \<open>
  \<open>ToIntegerOrInfinity\<close> of ECMAScript on a finite number: the fraction is cut off,
  towards zero.
\<close>

definition ToIntegerOrInfinity :: "number \<Rightarrow> int" where
  "ToIntegerOrInfinity x = (if x < 0 then \<lceil>x\<rceil> else \<lfloor>x\<rfloor>)"

text \<open>
  \<open>String.prototype.slice(start, end)\<close>: both arguments are made integers, a negative
  index counts from the end of the string, every index is clamped into \<open>[0, len]\<close>,
  and an empty range gives the empty string.  \<open>end = None\<close> is the one-argument call.
\<close>

definition js_slice :: "'a list \<Rightarrow> number \<Rightarrow> number option \<Rightarrow> 'a list" where
  "js_slice s start end =
     (let len = int (length s);
          intStart = ToIntegerOrInfinity start;
          from = (if intStart < 0 then max (len + intStart) 0 else min intStart len);
          intEnd = (case end of None \<Rightarrow> len | Some e \<Rightarrow> ToIntegerOrInfinity e);
          to = (if intEnd < 0 then max (len + intEnd) 0 else min intEnd len)
      in if to \<le> from then [] else take (nat (to - from)) (drop (nat from) s))"

text \<open>
  The tail of \<open>handle\<close>.  \<open>offset_param\<close> and \<open>maxLength\<close> are the optional fields of
  \<open>finalParams\<close>; \<open>finalParams.offset || 0\<close> maps an absent offset (and 0) to 0.
  \<open>actualOffset\<close> is the number \<open>offset\<close> itself, \<open>Math.min\<close> compares numbers, and
  only \<open>slice\<close> cuts fractions off.
\<close>

definition paginate ::
  "'a list \<Rightarrow> number option \<Rightarrow> number option \<Rightarrow> 'a HtmlSourceResponse" where
  "paginate htmlSource offset_param maxLength =
     (let totalLength = int (length htmlSource);
          offset = (case offset_param of None \<Rightarrow> 0 | Some n \<Rightarrow> n)
      in case maxLength of
           Some m \<Rightarrow>
             (let endPos = min (offset + m) (of_int totalLength);
                  resultContent = js_slice htmlSource offset (Some endPos)
              in \<lparr> content = resultContent, totalLength = totalLength,
                   hasMore = (endPos < of_int totalLength), actualOffset = offset,
                   actualLength = int (length resultContent) \<rparr>)
         | None \<Rightarrow>
             (let resultContent =
                    (if offset > 0 then js_slice htmlSource offset None else htmlSource)
              in \<lparr> content = resultContent, totalLength = totalLength,
                   hasMore = False, actualOffset = offset,
                   actualLength = int (length resultContent) \<rparr>))"

text \<open>
  A client that reads the whole text: it asks for the window at \<open>off\<close>, and while the
  answer says \<open>hasMore\<close> it asks again at \<open>off + M\<close>, appending the contents.  The loop
  runs forever for \<open>M \<le> 0\<close> on a non-empty text, so it is a partial function and
  \<open>None\<close> means that it does not return.
\<close>

partial_function (option) fetch_all :: "'a list \<Rightarrow> number \<Rightarrow> number \<Rightarrow> 'a list option" where
  "fetch_all S M off =
     (if hasMore (paginate S (Some off) (Some M))
      then Option.bind (fetch_all S M (off + M))
             (\<lambda>rest. Some (content (paginate S (Some off) (Some M)) @ rest))
      else Some (content (paginate S (Some off) (Some M))))"

declare fetch_all.simps [code]

section \<open>Compression stage (htmlsource.ts, lines 131 to 136)\<close>

text \<open>
  The class \<open>\s\<close> of a JavaScript regular expression, which is also the set that
  \<open>String.prototype.trim\<close> strips: the WhiteSpace and LineTerminator code points of
  ECMAScript (TAB, LF, VT, FF, CR, SP, NBSP, U+1680, U+2000 to U+200A, U+2028, U+2029,
  U+202F, U+205F, U+3000, U+FEFF).
\<close>

definition is_space :: "code_unit \<Rightarrow> bool" where
  "is_space c =
     (c = 0x09 \<or> c = 0x0A \<or> c = 0x0B \<or> c = 0x0C \<or> c = 0x0D \<or> c = 0x20 \<or>
      c = 0xA0 \<or> c = 0x1680 \<or> (0x2000 \<le> c \<and> c \<le> 0x200A) \<or>
      c = 0x2028 \<or> c = 0x2029 \<or> c = 0x202F \<or> c = 0x205F \<or> c = 0x3000 \<or>
      c = 0xFEFF)"

text \<open>The units \<open>>\<close>, \<open><\<close>, the space and the line feed.\<close>

abbreviation chr_gt :: code_unit where
  "chr_gt \<equiv> 0x3E"
abbreviation chr_lt :: code_unit where
  "chr_lt \<equiv> 0x3C"
abbreviation chr_sp :: code_unit where
  "chr_sp \<equiv> 0x20"
abbreviation chr_nl :: code_unit where
  "chr_nl \<equiv> 0x0A"

text \<open>
  \<open>gap_before_tag cs\<close>: the text \<open>cs\<close> starts with \<open>\s+\<close> followed by \<open><\<close>.  The
  quantifier is greedy, and a shorter run is followed by a whitespace unit, so the
  pattern matches exactly when the maximal run is non-empty and \<open><\<close> comes next.
\<close>

definition gap_before_tag :: "jsstring \<Rightarrow> bool" where
  "gap_before_tag cs =
     (takeWhile is_space cs \<noteq> [] \<and>
      (case dropWhile is_space cs of [] \<Rightarrow> False | d # _ \<Rightarrow> d = chr_lt))"

text \<open>
  \<open>.replace(/>\s+</g, '><')\<close>: one scan from left to right; at a match the
  replacement is written and the scan goes on behind the matched \<open><\<close>, otherwise
  the unit is copied and the scan moves one unit on.
\<close>

function remove_between_tags :: "jsstring \<Rightarrow> jsstring" where
  "remove_between_tags [] = []"
| "remove_between_tags (c # cs) =
     (if c = chr_gt \<and> gap_before_tag cs
      then chr_gt # chr_lt # remove_between_tags (tl (dropWhile is_space cs))
      else c # remove_between_tags cs)"
  by pat_completeness auto
termination
proof (relation "measure length")
  fix c :: code_unit and cs :: jsstring
  have "length (tl (dropWhile is_space cs)) \<le> length cs"
    using length_dropWhile_le [of is_space cs] by simp
  then show "(tl (dropWhile is_space cs), c # cs) \<in> measure length"
    by simp
qed simp_all

text \<open>\<open>.replace(/\s+/g, ' ')\<close>: every maximal run of whitespace becomes one space.\<close>

function collapse_whitespace :: "jsstring \<Rightarrow> jsstring" where
  "collapse_whitespace [] = []"
| "collapse_whitespace (c # cs) =
     (if is_space c then chr_sp # collapse_whitespace (dropWhile is_space cs)
      else c # collapse_whitespace cs)"
  by pat_completeness auto
termination
proof (relation "measure length")
  fix c :: code_unit and cs :: jsstring
  show "(dropWhile is_space cs, c # cs) \<in> measure length"
    using length_dropWhile_le [of is_space cs] by simp
qed simp_all

text \<open>\<open>.trim()\<close>: whitespace is removed at the start and at the end.\<close>

definition trim :: "jsstring \<Rightarrow> jsstring" where
  "trim s = rev (dropWhile is_space (rev (dropWhile is_space s)))"

text \<open>The three calls of the \<open>if (finalParams.compress)\<close> block, in their order.\<close>

definition apply_compression :: "jsstring \<Rightarrow> jsstring" where
  "apply_compression htmlSource = trim (collapse_whitespace (remove_between_tags htmlSource))"

text \<open>
  Two predicates used in the proofs: \<open>tight\<close> texts have no whitespace run between
  \<open>>\<close> and \<open><\<close>; \<open>single_spaced\<close> texts have no whitespace unit but single spaces.
\<close>

fun tight :: "jsstring \<Rightarrow> bool" where
  "tight [] = True"
| "tight (c # cs) = (\<not> (c = chr_gt \<and> gap_before_tag cs) \<and> tight cs)"

fun single_spaced :: "jsstring \<Rightarrow> bool" where
  "single_spaced [] = True"
| "single_spaced (c # cs) =
     ((is_space c \<longrightarrow> c = chr_sp \<and> (case cs of [] \<Rightarrow> True | d # _ \<Rightarrow> \<not> is_space d))
      \<and> single_spaced cs)"

section \<open>Options and presets (htmlsource.ts, lines 33 to 76)\<close>

text \<open>The object \<open>params\<close>; every field of the schema is \<open>.optional()\<close>.\<close>

record ExtractionOptions =
  compress :: "bool option"
  excludeTags :: "string list option"
  includeComments :: "bool option"
  prettyPrint :: "bool option"
  selector :: "string option"
  maxLength :: "number option"
  offset :: "number option"
  headOnly :: "bool option"
  bodyOnly :: "bool option"
  preset :: "string option"

text \<open>
  Lines 57 to 76 of \<open>handle\<close>: \<open>finalParams\<close> is a copy of \<open>params\<close>; the \<open>switch\<close>
  runs when \<open>params.preset\<close> is truthy (present and not the empty string), overrides
  the fields a preset names, and keeps the copy in the branches \<open>full\<close> and
  \<open>default\<close>.  No branch throws.  \<open>handle\<close> compares the preset as a string, so the
  model takes every string, also those outside the enumeration of line 48.
\<close>

definition finalParams :: "ExtractionOptions \<Rightarrow> ExtractionOptions" where
  "finalParams ps =
     (case preset ps of
        None \<Rightarrow> ps
      | Some p \<Rightarrow>
          if p = [] then ps
          else if p = ''minimal'' then
            ps\<lparr>excludeTags := Some [''script'', ''style'', ''noscript''],
               compress := Some True, includeComments := Some False\<rparr>
          else if p = ''structure'' then
            ps\<lparr>excludeTags := Some [''script'', ''style''], compress := Some True\<rparr>
          else if p = ''content'' then
            ps\<lparr>excludeTags := Some [''script'', ''style'', ''meta'', ''link''],
               compress := Some True\<rparr>
          else if p = ''full'' then ps
          else ps)"

section \<open>Request pipeline: data and string primitives\<close>

text \<open>
  What \<open>getRequestInfo.handle\<close> can end with other than a result: a \<open>TypeError\<close>,
  thrown for a property read on \<open>undefined\<close> and by \<open>new URL\<close> on a text that is no
  URL.
\<close>

datatype error = TypeError

text \<open>
  The six fields that \<open>handle\<close> copies from a cookie of the browser context
  (lines 316 to 323).
\<close>

record Cookie =
  name :: string
  "value" :: string
  domain :: string
  path :: string
  httpOnly :: bool
  secure :: bool

text \<open>
  \<open>requestInfo\<close> starts as the empty object (\<open>None\<close>) and is otherwise an object with
  the four fields below.  \<open>headers\<close> is an object; the list holds its entries in the
  order of \<open>Object.entries\<close>, with distinct keys.  A \<open>Request\<close> is a request event of
  the page: the same four values and its resource type.
\<close>

record RequestSnapshot =
  url :: string
  "method" :: string
  headers :: "(string \<times> string) list"
  postData :: "string option"

record Request = RequestSnapshot +
  resourceType :: string

text \<open>\<open>postData\<close> of the response (lines 336 to 339), with \<open>params\<close> as pairs of name and value.\<close>

record PostData =
  contentType :: string
  params :: "(string \<times> string) list"

text \<open>
  The object \<open>response\<close> that \<open>generateCurlCommand\<close> reads.  Its \<open>timestamp\<close> is
  the clock's and is read nowhere; \<open>curlCommand\<close> is returned beside it.
\<close>

record RequestInfoResponse =
  res_url :: string
  res_method :: string
  res_headers :: "(string \<times> string) list"
  cookies :: "Cookie list"
  res_postData :: "PostData option"

text \<open>\<open>startsWith\<close>, \<open>endsWith\<close>, \<open>includes\<close>, \<open>join\<close> of JavaScript.\<close>

definition startsWith :: "string \<Rightarrow> string \<Rightarrow> bool" where
  "startsWith s p = (take (length p) s = p)"

definition endsWith :: "string \<Rightarrow> string \<Rightarrow> bool" where
  "endsWith s p = (length p \<le> length s \<and> drop (length s - length p) s = p)"

fun includes_str :: "string \<Rightarrow> string \<Rightarrow> bool" where
  "includes_str [] p = (p = [])"
| "includes_str (c # cs) p = (startsWith (c # cs) p \<or> includes_str cs p)"

fun join :: "string \<Rightarrow> string list \<Rightarrow> string" where
  "join sep [] = []"
| "join sep [x] = x"
| "join sep (x # y # ys) = x @ sep @ join sep (y # ys)"

text \<open>
  \<open>toLowerCase\<close> on header names, which are ASCII: the letters A to Z move to a to z,
  every other byte stays.
\<close>

definition toLowerCase :: "string \<Rightarrow> string" where
  "toLowerCase s =
     map (\<lambda>c. if (65::nat) \<le> of_char c \<and> of_char c \<le> (90::nat)
              then char_of (of_char c + (32::nat)) else c) s"

text \<open>A JavaScript value used as a condition: \<open>undefined\<close> and the empty string are falsy.\<close>

definition truthy :: "string option \<Rightarrow> bool" where
  "truthy v = (case v of None \<Rightarrow> False | Some s \<Rightarrow> s \<noteq> [])"

section \<open>Request Recorder and Cookie Matcher (lines 271 to 309)\<close>

text \<open>
  The listener \<open>captureRequest\<close> (lines 274 to 284): a request of resource type
  \<open>document\<close> is assigned to \<open>requestInfo\<close>, any other request leaves it as it is.
  \<open>request.postData() || null\<close> turns an absent and an empty body into \<open>null\<close>.
\<close>

definition captureRequest :: "RequestSnapshot option \<Rightarrow> Request \<Rightarrow> RequestSnapshot option" where
  "captureRequest requestInfo request =
     (if resourceType request = ''document''
      then Some \<lparr> url = url request, method = method request, headers = headers request,
                  postData = (case postData request of
                                None \<Rightarrow> None
                              | Some d \<Rightarrow> if d = [] then None else Some d) \<rparr>
      else requestInfo)"

text \<open>
  Lines 271 to 301.  \<open>requests\<close> are the request events that reach the listener, in
  their order, between \<open>page.on\<close> and the reads of \<open>requestInfo\<close>.  With \<open>reload\<close> they
  act on the empty object; without it \<open>requestInfo\<close> is first set from the page's URL.
  A reload that fails makes \<open>handle\<close> throw before anything is read and has no
  value here.
\<close>

definition captured_requestInfo :: "bool \<Rightarrow> string \<Rightarrow> Request list \<Rightarrow> RequestSnapshot option" where
  "captured_requestInfo reload page_url requests =
     foldl captureRequest
       (if reload then None
        else Some \<lparr> url = page_url, method = ''GET'', headers = [], postData = None \<rparr>)
       requests"

text \<open>\<open>requestInfo.url || page.url()\<close> and \<open>requestInfo.headers || {}\<close>.\<close>

definition resolved_url :: "RequestSnapshot option \<Rightarrow> string \<Rightarrow> string" where
  "resolved_url requestInfo page_url =
     (case requestInfo of
        None \<Rightarrow> page_url
      | Some ri \<Rightarrow> if url ri \<noteq> [] then url ri else page_url)"

definition captured_headers :: "RequestSnapshot option \<Rightarrow> (string \<times> string) list" where
  "captured_headers requestInfo = (case requestInfo of None \<Rightarrow> [] | Some ri \<Rightarrow> headers ri)"

text \<open>
  The callback of \<open>cookies.filter\<close> (lines 305 to 309) for a URL whose \<open>hostname\<close> is
  given: \<open>cookieDomain\<close> is the domain with a leading dot, and the test is
  \<open>hostname.endsWith(cookieDomain.slice(1)) || hostname === cookie.domain\<close>.
\<close>

definition cookie_matches :: "string \<Rightarrow> Cookie \<Rightarrow> bool" where
  "cookie_matches hostname cookie =
     (let cookieDomain = (if startsWith (domain cookie) ''.'' then domain cookie
                          else ''.'' @ domain cookie)
      in endsWith hostname (js_slice cookieDomain 1 None) \<or> hostname = domain cookie)"

text \<open>
  \<open>cookies.filter(...)\<close>.  The URL parser of the platform is not part of the
  repository: \<open>hostname\<close> is the host name of \<open>new URL(requestInfo.url || page.url())\<close>,
  or \<open>None\<close> when the constructor throws, which it does inside the callback, so
  only for a jar that is not empty.
\<close>

definition cookiesForCurrentPage :: "string option \<Rightarrow> Cookie list \<Rightarrow> error + Cookie list" where
  "cookiesForCurrentPage hostname jar =
     (if jar = [] then Inr []
      else case hostname of
             None \<Rightarrow> Inl TypeError
           | Some h \<Rightarrow> Inr (filter (cookie_matches h) jar))"

section \<open>Post-data parser (lines 365 to 372)\<close>

text \<open>
  \<open>new URLSearchParams(text)\<close> as the URL standard defines it: a leading \<open>?\<close> is
  dropped, the text is split at \<open>&\<close>, empty pieces are skipped, a piece is split at
  its first \<open>=\<close>, \<open>+\<close> becomes a space, percent escapes are decoded, and the bytes
  are decoded as UTF-8, every ill-formed sequence becoming U+FFFD.
\<close>

fun split_on :: "char \<Rightarrow> string \<Rightarrow> string list" where
  "split_on sep [] = [[]]"
| "split_on sep (c # cs) =
     (if c = sep then [] # split_on sep cs
      else (case split_on sep cs of [] \<Rightarrow> [[c]] | x # xs \<Rightarrow> (c # x) # xs))"

definition hex_value :: "char \<Rightarrow> nat option" where
  "hex_value c =
     (let n = (of_char c :: nat)
      in if 48 \<le> n \<and> n \<le> 57 then Some (n - 48)
         else if 65 \<le> n \<and> n \<le> 70 then Some (n - 55)
         else if 97 \<le> n \<and> n \<le> 102 then Some (n - 87)
         else None)"

fun percent_decode :: "string \<Rightarrow> string" where
  "percent_decode (c # h # l # cs) =
     (if c = CHR ''%'' then
        (case (hex_value h, hex_value l) of
           (Some a, Some b) \<Rightarrow> char_of (16 * a + b) # percent_decode cs
         | _ \<Rightarrow> c # percent_decode (h # l # cs))
      else c # percent_decode (h # l # cs))"
| "percent_decode cs = cs"

definition plus_to_space :: "string \<Rightarrow> string" where
  "plus_to_space s = map (\<lambda>c. if c = CHR ''+'' then CHR '' '' else c) s"

text \<open>
  The UTF-8 decoder of the Encoding standard with replacement, on bytes: a well-formed
  sequence is kept; a lead byte that is none, or whose continuation bytes do not all
  follow within their bounds, gives the three bytes of U+FFFD, and decoding goes on at
  the first byte that was not accepted.
\<close>

definition utf8_needed :: "nat \<Rightarrow> (nat \<times> nat \<times> nat) option" where
  "utf8_needed b =
     (if 0xC2 \<le> b \<and> b \<le> 0xDF then Some (1, 0x80, 0xBF)
      else if 0xE0 \<le> b \<and> b \<le> 0xEF
        then Some (2, if b = 0xE0 then 0xA0 else 0x80, if b = 0xED then 0x9F else 0xBF)
      else if 0xF0 \<le> b \<and> b \<le> 0xF4
        then Some (3, if b = 0xF0 then 0x90 else 0x80, if b = 0xF4 then 0x8F else 0xBF)
      else None)"

fun accepted :: "nat \<Rightarrow> nat \<Rightarrow> nat \<Rightarrow> string \<Rightarrow> nat" where
  "accepted 0 lo hi bs = 0"
| "accepted (Suc k) lo hi [] = 0"
| "accepted (Suc k) lo hi (c # cs) =
     (if lo \<le> of_char c \<and> of_char c \<le> hi then Suc (accepted k 0x80 0xBF cs) else 0)"

definition replacement :: string where
  "replacement = [CHR 0xEF, CHR 0xBF, CHR 0xBD]"

function utf8_decode :: "string \<Rightarrow> string" where
  "utf8_decode [] = []"
| "utf8_decode (b # bs) =
     (if (of_char b :: nat) \<le> 0x7F then b # utf8_decode bs
      else case utf8_needed (of_char b) of
             None \<Rightarrow> replacement @ utf8_decode bs
           | Some (k, lo, hi) \<Rightarrow>
               if accepted k lo hi bs = k
               then b # take k bs @ utf8_decode (drop k bs)
               else replacement @ utf8_decode (drop (accepted k lo hi bs) bs))"
  by pat_completeness auto
termination
  by (relation "measure length") simp_all

definition parse_pair :: "string \<Rightarrow> string \<times> string" where
  "parse_pair bytes =
     (let n = takeWhile (\<lambda>c. c \<noteq> CHR ''='') bytes;
          v = drop (Suc (length n)) bytes
      in (utf8_decode (percent_decode (plus_to_space n)),
          utf8_decode (percent_decode (plus_to_space v))))"

definition URLSearchParams :: "string \<Rightarrow> (string \<times> string) list" where
  "URLSearchParams init =
     (let input = (if startsWith init ''?'' then tl init else init)
      in map parse_pair (filter (\<lambda>bytes. bytes \<noteq> []) (split_on CHR ''&'' input)))"

text \<open>
  \<open>parsePostData(postData, contentType)\<close> with \<open>body\<close> and \<open>ctype\<close> for its
  parameters: \<open>!contentType\<close> holds for an absent and for an empty content type.
\<close>

definition parsePostData :: "string \<Rightarrow> string option \<Rightarrow> (string \<times> string) list" where
  "parsePostData body ctype =
     (case ctype of
        None \<Rightarrow> URLSearchParams body
      | Some ct \<Rightarrow>
          if ct = [] \<or> includes_str ct ''application/x-www-form-urlencoded''
          then URLSearchParams body
          else [(''raw'', body)])"

section \<open>Curl Synthesizer (lines 374 to 414) and the response (lines 311 to 343)\<close>

text \<open>
  \<open>encodeURIComponent\<close> on the UTF-8 bytes of a text: letters, digits and
  \<open>- _ . ! ~ * ' ( )\<close> stay, every other byte becomes \<open>%\<close> and two upper-case
  hexadecimal digits.  The names and values come from \<open>URLSearchParams\<close>, which
  yields no lone surrogate, so the call does not throw.
\<close>

definition uri_unreserved :: "char \<Rightarrow> bool" where
  "uri_unreserved c =
     (let n = (of_char c :: nat)
      in (65 \<le> n \<and> n \<le> 90) \<or> (97 \<le> n \<and> n \<le> 122) \<or> (48 \<le> n \<and> n \<le> 57)
         \<or> c \<in> set ''-_.!~*()'' \<or> n = 39)"

definition hex_digit :: "nat \<Rightarrow> char" where
  "hex_digit n = ''0123456789ABCDEF'' ! (n mod 16)"

definition encodeURIComponent :: "string \<Rightarrow> string" where
  "encodeURIComponent s =
     concat (map (\<lambda>c. if uri_unreserved c then [c]
                       else [CHR ''%'', hex_digit (of_char c div 16),
                             hex_digit (of_char c mod 16)]) s)"

definition skipHeaders :: "string list" where
  "skipHeaders = [''cookie'', ''content-length'']"

text \<open>A text between two single quotes, as the template literals of the source write it.\<close>

definition quoted :: "string \<Rightarrow> string" where
  "quoted s = CHR 0x27 # s @ [CHR 0x27]"

text \<open>\<open>.map(c => `${c.name}=${c.value}`).join('; ')\<close>, at lines 329 and 395.\<close>

definition cookieString :: "Cookie list \<Rightarrow> string" where
  "cookieString cs = join ''; '' (map (\<lambda>c. name c @ ''='' @ value c) cs)"

text \<open>
  \<open>generateCurlCommand\<close> up to the final \<open>join\<close>: the array \<open>parts\<close> after each
  block of the function.  \<open>info.postData.params[0].name\<close> on an empty \<open>params\<close> reads
  a property of \<open>undefined\<close> and throws a \<open>TypeError\<close>.
\<close>

definition generateCurlCommand_parts :: "RequestInfoResponse \<Rightarrow> error + string list" where
  "generateCurlCommand_parts info =
     (let parts = [''curl''];
          parts = (if res_method info \<noteq> ''GET'' then parts @ [''-X'', res_method info]
                   else parts);
          parts = parts @ [quoted (res_url info)];
          parts = foldl (\<lambda>parts (key, v).
                    if toLowerCase key \<notin> set skipHeaders
                    then parts @ [''-H'', quoted (key @ '': '' @ v)] else parts)
                  parts (res_headers info);
          parts = (if cookies info \<noteq> []
                   then parts @ [''-H'', quoted (''Cookie: '' @ cookieString (cookies info))]
                   else parts)
      in case res_postData info of
           None \<Rightarrow> Inr parts
         | Some pd \<Rightarrow>
             (case params pd of
                [] \<Rightarrow> Inl TypeError
              | p0 # _ \<Rightarrow>
                  if fst p0 = ''raw'' then Inr (parts @ [''-d'', quoted (snd p0)])
                  else Inr (parts @ [''-d'',
                         quoted (join ''&''
                           (map (\<lambda>(n, v). encodeURIComponent n @ ''='' @ encodeURIComponent v)
                              (params pd)))])))"

definition generateCurlCommand :: "RequestInfoResponse \<Rightarrow> error + string" where
  "generateCurlCommand info =
     (case generateCurlCommand_parts info of
        Inl e \<Rightarrow> Inl e
      | Inr parts \<Rightarrow> Inr (join '' '' parts))"

text \<open>
  Lines 311 to 340: the object \<open>response\<close>.  \<open>response.headers\<close> is the object
  \<open>requestInfo.headers\<close> itself, so the \<open>Cookie\<close> entry written at line 329 is also
  seen by the read of \<open>content-type\<close> at lines 337 and 338; an assignment to a key of
  an object replaces the value of a present key and appends an absent one.  The test
  \<open>if (requestInfo.postData)\<close> fails for an absent and for an empty body.
\<close>

definition buildResponse ::
  "RequestSnapshot option \<Rightarrow> string \<Rightarrow> Cookie list \<Rightarrow> RequestInfoResponse" where
  "buildResponse requestInfo page_url cookiesForPage =
     (let hdrs = (if cookiesForPage \<noteq> []
                     \<and> \<not> truthy (map_of (captured_headers requestInfo) ''cookie'')
                  then AList.update ''Cookie'' (cookieString cookiesForPage)
                         (captured_headers requestInfo)
                  else captured_headers requestInfo)
      in \<lparr> res_url = resolved_url requestInfo page_url,
           res_method = (case requestInfo of
                           None \<Rightarrow> ''GET''
                         | Some ri \<Rightarrow> if method ri \<noteq> [] then method ri else ''GET''),
           res_headers = hdrs,
           cookies = cookiesForPage,
           res_postData =
             (case requestInfo of
                None \<Rightarrow> None
              | Some ri \<Rightarrow>
                  (case postData ri of
                     None \<Rightarrow> None
                   | Some d \<Rightarrow>
                       if d = [] then None else
                       Some \<lparr> contentType =
                                (case map_of hdrs ''content-type'' of
                                   None \<Rightarrow> ''application/x-www-form-urlencoded''
                                 | Some ct \<Rightarrow>
                                     if ct = [] then ''application/x-www-form-urlencoded''
                                     else ct),
                              params = parsePostData d (map_of hdrs ''content-type'') \<rparr>)) \<rparr>)"

text \<open>
  \<open>getRequestInfo.handle\<close>: the response and its \<open>curlCommand\<close>, or the error thrown
  on the way.  \<open>hostname_of\<close> stands for \<open>new URL(...).hostname\<close>.
\<close>

definition getRequestInfo ::
  "bool \<Rightarrow> string \<Rightarrow> (string \<Rightarrow> string option) \<Rightarrow> Request list \<Rightarrow> Cookie list
     \<Rightarrow> error + RequestInfoResponse \<times> string" where
  "getRequestInfo reload page_url hostname_of requests jar =
     (let requestInfo = captured_requestInfo reload page_url requests
      in case cookiesForCurrentPage (hostname_of (resolved_url requestInfo page_url)) jar of
           Inl e \<Rightarrow> Inl e
         | Inr cookiesForPage \<Rightarrow>
             (let response = buildResponse requestInfo page_url cookiesForPage
              in case generateCurlCommand response of
                   Inl e \<Rightarrow> Inl e
                 | Inr curlCommand \<Rightarrow> Inr (response, curlCommand)))"

section \<open>Properties of the paginator\<close>

lemma js_slice_window:
  assumes "0 \<le> a" "a \<le> b" "b \<le> of_int (int (length s))"
  shows "js_slice s a (Some b) = take (nat (\<lfloor>b\<rfloor> - \<lfloor>a\<rfloor>)) (drop (nat \<lfloor>a\<rfloor>) s)"
proof -
  have fa: "0 \<le> \<lfloor>a\<rfloor>" using assms(1) by simp
  have fab: "\<lfloor>a\<rfloor> \<le> \<lfloor>b\<rfloor>" using assms(2) by (rule floor_mono)
  have fb: "\<lfloor>b\<rfloor> \<le> int (length s)"
    using assms(3) by (simp add: floor_le_iff) 
  have b0: "0 \<le> b" using assms by simp
  show ?thesis
    using fa fab fb assms(1) b0
    by (auto simp: js_slice_def Let_def ToIntegerOrInfinity_def min_def max_def)
qed

lemma js_slice_beyond:
  assumes "of_int (int (length s)) \<le> a"
  shows "js_slice s a e = []"
proof -
  have "int (length s) \<le> \<lfloor>a\<rfloor>" using assms by (simp add: le_floor_iff)
  moreover have "0 \<le> a" using assms by (meson of_int_0_le_iff of_nat_0_le_iff order_trans)
  ultimately show ?thesis
    by (auto simp: js_slice_def Let_def ToIntegerOrInfinity_def min_def max_def split: option.splits)
qed

lemma paginate_window:
  assumes "0 \<le> off" "0 \<le> M"
  shows "content (paginate S (Some off) (Some M))
         = take (nat (\<lfloor>min (off + M) (of_int (int (length S)))\<rfloor> - \<lfloor>off\<rfloor>))
             (drop (nat \<lfloor>off\<rfloor>) S)"
proof (cases "off \<le> of_int (int (length S))")
  case True
  let ?e = "min (off + M) (of_int (int (length S)))"
  have "js_slice S off (Some ?e) = take (nat (\<lfloor>?e\<rfloor> - \<lfloor>off\<rfloor>)) (drop (nat \<lfloor>off\<rfloor>) S)"
    using assms True by (intro js_slice_window) auto
  then show ?thesis
    by (simp add: paginate_def Let_def)
next
  case False
  then have "js_slice S off (Some (min (off + M) (of_int (int (length S))))) = []"
    by (intro js_slice_beyond) simp
  moreover have "int (length S) \<le> \<lfloor>off\<rfloor>"
    using False by (simp add: le_floor_iff)
  then have "drop (nat \<lfloor>off\<rfloor>) S = []"
    by simp
  ultimately show ?thesis
    by (simp add: paginate_def Let_def)
qed

lemma paginate_hasMore:
  "hasMore (paginate S (Some off) (Some M)) = (off + M < of_int (int (length S)))"
  by (auto simp: paginate_def Let_def min_def)

lemma fetch_all_drop:
  "0 < M \<Longrightarrow> 0 \<le> off \<Longrightarrow> fetch_all S M off = Some (drop (nat \<lfloor>off\<rfloor>) S)"
proof (induction "nat \<lceil>(of_int (int (length S)) - off) / M\<rceil>" arbitrary: off rule: less_induct)
  case less
  let ?n = "of_int (int (length S)) :: rat"
  have M: "0 \<le> M" using less.prems by simp
  have w: "content (paginate S (Some off) (Some M))
           = take (nat (\<lfloor>min (off + M) ?n\<rfloor> - \<lfloor>off\<rfloor>)) (drop (nat \<lfloor>off\<rfloor>) S)"
    using paginate_window [OF less.prems(2) M] .
  show ?case
  proof (cases "off + M < ?n")
    case True
    have dec: "nat \<lceil>(?n - (off + M)) / M\<rceil> < nat \<lceil>(?n - off) / M\<rceil>"
    proof -
      have e: "(?n - (off + M)) / M = (?n - off) / M - 1"
        using less.prems(1) by (simp add: field_simps)
      have "0 < (?n - (off + M)) / M"
        using True less.prems(1) by simp
      then have "0 < \<lceil>(?n - (off + M)) / M\<rceil>"
        by (simp add: less_ceiling_iff)
      moreover have "\<lceil>(?n - off) / M\<rceil> = \<lceil>(?n - (off + M)) / M\<rceil> + 1"
        unfolding e by simp
      ultimately show ?thesis by simp
    qed
    have ih: "fetch_all S M (off + M) = Some (drop (nat \<lfloor>off + M\<rfloor>) S)"
      using less.hyps [OF dec] less.prems by simp
    have m: "min (off + M) ?n = off + M"
      using True by simp
    have mono: "\<lfloor>off\<rfloor> \<le> \<lfloor>off + M\<rfloor>"
      using M by (intro floor_mono) simp
    have f0: "0 \<le> \<lfloor>off\<rfloor>"
      using less.prems(2) by simp
    have "take (nat (\<lfloor>off + M\<rfloor> - \<lfloor>off\<rfloor>)) (drop (nat \<lfloor>off\<rfloor>) S) @ drop (nat \<lfloor>off + M\<rfloor>) S
          = drop (nat \<lfloor>off\<rfloor>) S"
    proof -
      have "nat \<lfloor>off + M\<rfloor> = nat (\<lfloor>off + M\<rfloor> - \<lfloor>off\<rfloor>) + nat \<lfloor>off\<rfloor>"
        using mono f0 by linarith
      then have "drop (nat \<lfloor>off + M\<rfloor>) S
                 = drop (nat (\<lfloor>off + M\<rfloor> - \<lfloor>off\<rfloor>)) (drop (nat \<lfloor>off\<rfloor>) S)"
        by simp
      then show ?thesis
        by (simp only: append_take_drop_id)
    qed
    then show ?thesis
      using True by (subst fetch_all.simps) (simp add: paginate_hasMore w ih m)
  next
    case False
    then have m: "min (off + M) ?n = ?n"
      by simp
    have "length (drop (nat \<lfloor>off\<rfloor>) S) \<le> nat (int (length S) - \<lfloor>off\<rfloor>)"
      using less.prems(2) by simp
    then have "take (nat (int (length S) - \<lfloor>off\<rfloor>)) (drop (nat \<lfloor>off\<rfloor>) S)
               = drop (nat \<lfloor>off\<rfloor>) S"
      by (rule take_all)
    then show ?thesis
      using False by (subst fetch_all.simps) (simp add: paginate_hasMore w m)
  qed
qed

text \<open>
  C1, as the spec states it, fails for an offset beyond the end of the text: the window
  is empty, but \<open>actualOffset\<close> repeats the requested offset, so
  \<open>actualOffset + actualLength\<close> is larger than \<open>totalLength\<close> (text \<open>abc\<close>, offset 5,
  maxLength 2).  It fails for a fractional offset as well: on \<open>abcde\<close>, offset 1.5 and
  maxLength 10 give the content \<open>bcde\<close> with \<open>actualOffset = 1.5\<close>, a sum of 5.5.
  For negative numbers the equation for \<open>hasMore\<close> fails: on \<open>abcde\<close>, offset 5 with
  maxLength \<open>-1\<close> reports \<open>hasMore\<close> with nothing left, and offset \<open>-2\<close> with
  maxLength 10 reports no more although the sum is 0.
\<close>

theorem paginate_sum_bound_counterexample:
  "content (paginate ''abc'' (Some 5) (Some 2)) = [] \<and>
   actualOffset (paginate ''abc'' (Some 5) (Some 2)) = 5 \<and>
   actualLength (paginate ''abc'' (Some 5) (Some 2)) = 0 \<and>
   totalLength (paginate ''abc'' (Some 5) (Some 2)) = 3 \<and>
   \<not> (actualOffset (paginate ''abc'' (Some 5) (Some 2))
        + of_int (actualLength (paginate ''abc'' (Some 5) (Some 2)))
      \<le> of_int (totalLength (paginate ''abc'' (Some 5) (Some 2)))) \<and>
   content (paginate ''abcde'' (Some (3 / 2)) (Some 10)) = ''bcde'' \<and>
   actualOffset (paginate ''abcde'' (Some (3 / 2)) (Some 10)) = 3 / 2 \<and>
   \<not> (actualOffset (paginate ''abcde'' (Some (3 / 2)) (Some 10))
        + of_int (actualLength (paginate ''abcde'' (Some (3 / 2)) (Some 10)))
      \<le> of_int (totalLength (paginate ''abcde'' (Some (3 / 2)) (Some 10)))) \<and>
   hasMore (paginate ''abcde'' (Some 5) (Some (- 1))) \<and>
   \<not> (actualOffset (paginate ''abcde'' (Some 5) (Some (- 1)))
        + of_int (actualLength (paginate ''abcde'' (Some 5) (Some (- 1))))
      < of_int (totalLength (paginate ''abcde'' (Some 5) (Some (- 1))))) \<and>
   \<not> hasMore (paginate ''abcde'' (Some (- 2)) (Some 10)) \<and>
   actualOffset (paginate ''abcde'' (Some (- 2)) (Some 10))
     + of_int (actualLength (paginate ''abcde'' (Some (- 2)) (Some 10)))
   < of_int (totalLength (paginate ''abcde'' (Some (- 2)) (Some 10)))"
  by code_simp

text \<open>
  C1 (amended).  For every call, \<open>actualLength\<close> is the length of \<open>content\<close>,
  \<open>totalLength\<close> is the length of the filtered text, and \<open>actualOffset\<close> is the
  requested offset as it was given (0 when omitted), neither clamped nor cut to an
  integer.  When \<open>maxLength\<close> is omitted, \<open>hasMore\<close> is false.  When a non-negative
  \<open>maxLength\<close> is supplied with a non-negative offset, \<open>hasMore\<close> equals
  \<open>actualOffset + actualLength < totalLength\<close> (also for offsets beyond the end), and
  \<open>actualOffset + actualLength \<le> totalLength\<close> holds exactly when the offset is at most
  \<open>totalLength\<close> and is an integer or \<open>hasMore\<close> is true; beyond the end the content
  is empty.
\<close>

theorem paginate_invariant:
  "actualLength (paginate S off ml) = int (length (content (paginate S off ml))) \<and>
   totalLength (paginate S off ml) = int (length S) \<and>
   actualOffset (paginate S off ml) = (case off of None \<Rightarrow> 0 | Some k \<Rightarrow> k) \<and>
   (ml = None \<longrightarrow> \<not> hasMore (paginate S off ml)) \<and>
   (\<forall>M. ml = Some M \<longrightarrow> 0 \<le> M \<longrightarrow> 0 \<le> (case off of None \<Rightarrow> 0 | Some k \<Rightarrow> k) \<longrightarrow>
      hasMore (paginate S off ml) =
        (actualOffset (paginate S off ml) + of_int (actualLength (paginate S off ml))
           < of_int (totalLength (paginate S off ml))) \<and>
      (actualOffset (paginate S off ml) + of_int (actualLength (paginate S off ml))
           \<le> of_int (totalLength (paginate S off ml))) =
        ((case off of None \<Rightarrow> 0 | Some k \<Rightarrow> k) \<le> of_int (int (length S)) \<and>
         ((case off of None \<Rightarrow> 0 | Some k \<Rightarrow> k) \<in> \<int> \<or> hasMore (paginate S off ml))) \<and>
      (of_int (int (length S)) < (case off of None \<Rightarrow> 0 | Some k \<Rightarrow> k) \<longrightarrow>
         content (paginate S off ml) = []))"
proof (intro conjI allI impI)
  show "actualLength (paginate S off ml) = int (length (content (paginate S off ml)))"
    by (simp add: paginate_def Let_def split: option.splits)
  show "totalLength (paginate S off ml) = int (length S)"
    by (simp add: paginate_def Let_def split: option.splits)
  show "actualOffset (paginate S off ml) = (case off of None \<Rightarrow> 0 | Some k \<Rightarrow> k)"
    by (simp add: paginate_def Let_def split: option.splits)
  show "\<not> hasMore (paginate S off ml)" if "ml = None"
    using that by (simp add: paginate_def Let_def)
next
  fix M
  assume ml: "ml = Some M" and M: "0 \<le> M"
    and o: "0 \<le> (case off of None \<Rightarrow> 0 | Some k \<Rightarrow> k)"
  define k where "k = (case off of None \<Rightarrow> 0 | Some k \<Rightarrow> k)"
  define n where "n = int (length S)"
  define e where "e = min (k + M) (of_int n)"
  have k: "0 \<le> k" using o by (simp add: k_def)
  have same: "paginate S off ml = paginate S (Some k) (Some M)"
    by (simp add: paginate_def k_def ml split: option.splits)
  have ao: "actualOffset (paginate S (Some k) (Some M)) = k"
    by (simp add: paginate_def Let_def)
  have tl: "totalLength (paginate S (Some k) (Some M)) = n"
    by (simp add: paginate_def Let_def n_def)
  have hm: "hasMore (paginate S (Some k) (Some M)) = (k + M < of_int n)"
    unfolding n_def by (rule paginate_hasMore)
  have ct: "content (paginate S (Some k) (Some M))
            = take (nat (\<lfloor>e\<rfloor> - \<lfloor>k\<rfloor>)) (drop (nat \<lfloor>k\<rfloor>) S)"
    unfolding e_def n_def by (rule paginate_window [OF k M])
  have al0: "actualLength (paginate S (Some k) (Some M))
            = int (length (content (paginate S (Some k) (Some M))))"
    by (simp add: paginate_def Let_def)
  have en: "e \<le> of_int n" by (simp add: e_def)
  have fen: "\<lfloor>e\<rfloor> \<le> n" using en by (simp add: floor_le_iff)
  have fk: "0 \<le> \<lfloor>k\<rfloor>" using k by simp
  have al: "actualLength (paginate S (Some k) (Some M))
            = (if k \<le> of_int n then \<lfloor>e\<rfloor> - \<lfloor>k\<rfloor> else 0)"
  proof (cases "k \<le> of_int n")
    case True
    then have "k \<le> e" using M by (simp add: e_def)
    then have ke: "\<lfloor>k\<rfloor> \<le> \<lfloor>e\<rfloor>" by (rule floor_mono)
    have "int (min (length S - nat \<lfloor>k\<rfloor>) (nat (\<lfloor>e\<rfloor> - \<lfloor>k\<rfloor>))) = \<lfloor>e\<rfloor> - \<lfloor>k\<rfloor>"
      using ke fen fk unfolding n_def by linarith
    then show ?thesis
      using True unfolding al0 ct by (simp add: n_def)
  next
    case False
    then have "n \<le> \<lfloor>k\<rfloor>" by (simp add: le_floor_iff)
    then show ?thesis
      using False unfolding al0 ct by (simp add: n_def)
  qed
  show "hasMore (paginate S off ml) =
        (actualOffset (paginate S off ml) + of_int (actualLength (paginate S off ml))
           < of_int (totalLength (paginate S off ml)))"
  proof (cases "k \<le> of_int n")
    case False
    then show ?thesis
      unfolding same ao tl hm al using M by simp
  next
    case True
    show ?thesis
    proof (cases "k + M < of_int n")
      case less: True
      then have e: "e = k + M" by (simp add: e_def)
      have "\<lfloor>e\<rfloor> < n" using less e by (simp add: floor_less_iff)
      then have "of_int \<lfloor>e\<rfloor> + 1 \<le> (of_int n :: rat)"
        by (metis of_int_1 of_int_add of_int_le_iff zless_imp_add1_zle add.commute)
      moreover have "k - of_int \<lfloor>k\<rfloor> < 1" by linarith
      ultimately have "k + of_int (\<lfloor>e\<rfloor> - \<lfloor>k\<rfloor>) < of_int n" by simp
      then show ?thesis
        unfolding same ao tl hm al using True less by simp
    next
      case ge: False
      then have e: "e = of_int n" by (simp add: e_def)
      have "of_int \<lfloor>k\<rfloor> \<le> k" by (rule of_int_floor_le)
      then have "\<not> k + of_int (n - \<lfloor>k\<rfloor>) < of_int n" by (simp add: not_less)
      then show ?thesis
        unfolding same ao tl hm al using True ge by (simp add: e)
    qed
  qed
  show "(actualOffset (paginate S off ml) + of_int (actualLength (paginate S off ml))
           \<le> of_int (totalLength (paginate S off ml))) =
        ((case off of None \<Rightarrow> 0 | Some k \<Rightarrow> k) \<le> of_int (int (length S)) \<and>
         ((case off of None \<Rightarrow> 0 | Some k \<Rightarrow> k) \<in> \<int> \<or> hasMore (paginate S off ml)))"
  proof (cases "k \<le> of_int n")
    case False
    then show ?thesis
      unfolding same ao tl hm al k_def [symmetric] n_def [symmetric] by simp
  next
    case True
    show ?thesis
    proof (cases "k + M < of_int n")
      case less: True
      then have e: "e = k + M" by (simp add: e_def)
      have "\<lfloor>e\<rfloor> < n" using less e by (simp add: floor_less_iff)
      then have "of_int \<lfloor>e\<rfloor> + 1 \<le> (of_int n :: rat)"
        by (metis of_int_1 of_int_add of_int_le_iff zless_imp_add1_zle add.commute)
      moreover have "k - of_int \<lfloor>k\<rfloor> < 1" by linarith
      ultimately have "k + of_int (\<lfloor>e\<rfloor> - \<lfloor>k\<rfloor>) \<le> of_int n" by simp
      then show ?thesis
        unfolding same ao tl hm al k_def [symmetric] n_def [symmetric] using True less by simp
    next
      case ge: False
      then have e: "e = of_int n" by (simp add: e_def)
      have "(k + of_int (n - \<lfloor>k\<rfloor>) \<le> of_int n) = (k \<in> \<int>)"
      proof
        assume "k + of_int (n - \<lfloor>k\<rfloor>) \<le> of_int n"
        then have "k \<le> of_int \<lfloor>k\<rfloor>" by simp
        then have "k = of_int \<lfloor>k\<rfloor>" by (simp add: order_antisym)
        then show "k \<in> \<int>" by (metis Ints_of_int)
      next
        assume "k \<in> \<int>"
        then obtain z where z: "k = of_int z" by (rule Ints_cases)
        have "\<lfloor>k\<rfloor> = z" using z by simp
        then show "k + of_int (n - \<lfloor>k\<rfloor>) \<le> of_int n" using z by simp
      qed
      then show ?thesis
        unfolding same ao tl hm al k_def [symmetric] n_def [symmetric]
        using True ge by (simp add: e)
    qed
  qed
  show "content (paginate S off ml) = []"
    if "of_int (int (length S)) < (case off of None \<Rightarrow> 0 | Some k \<Rightarrow> k)"
  proof -
    have "n \<le> \<lfloor>k\<rfloor>" using that by (simp add: le_floor_iff k_def n_def)
    then show ?thesis
      unfolding same ct by (simp add: n_def)
  qed
qed

theorem paginate_invariant_witness:
  "hasMore (paginate ''abcde'' (Some 2) (Some 2)) \<and>
   actualOffset (paginate ''abcde'' (Some 2) (Some 2)) = 2 \<and>
   actualLength (paginate ''abcde'' (Some 2) (Some 2)) = 2 \<and>
   totalLength (paginate ''abcde'' (Some 2) (Some 2)) = 5 \<and>
   \<not> hasMore (paginate ''abcde'' (Some 2) None)"
proof -
  have l: "actualLength (paginate ''abcde'' (Some 2) (Some 2)) = 2"
    by code_simp
  show ?thesis
    using paginate_invariant [of "''abcde''" "Some 2" "Some 2"]
      paginate_invariant [of "''abcde''" "Some 2" None]
    by (simp add: l)
qed

text \<open>
  C6.  The claim is that a negative offset is rejected or clamped to 0 and never taken
  relative to the end of the text.  With \<open>maxLength\<close> supplied the code passes the
  negative offset to \<open>slice\<close>, which counts it from the end: on the text \<open>abcde\<close>,
  offset \<open>-2\<close> and maxLength 10 give the last two units, \<open>actualOffset = -2\<close> and no
  error.  The branch without \<open>maxLength\<close> guards the slice with \<open>offset > 0\<close> and
  returns the whole text there.
\<close>

theorem paginate_negative_offset_wraps:
  "content (paginate ''abcde'' (Some (- 2)) (Some 10)) = ''de'' \<and>
   actualOffset (paginate ''abcde'' (Some (- 2)) (Some 10)) = - 2 \<and>
   \<not> hasMore (paginate ''abcde'' (Some (- 2)) (Some 10)) \<and>
   content (paginate ''abcde'' (Some 0) (Some 10)) = ''abcde'' \<and>
   content (paginate ''abcde'' (Some (- 2)) None) = ''abcde''"
  by (simp add: paginate_def js_slice_def ToIntegerOrInfinity_def Let_def)

text \<open>
  C7.  For every text \<open>S\<close> and every positive \<open>maxLength\<close> \<open>M\<close>, the client loop that
  takes the windows at offsets 0, M, 2M, ... until \<open>hasMore\<close> is false returns, and the
  concatenation of the contents is \<open>S\<close>.
\<close>

theorem fetch_all_reconstructs:
  "0 < M \<Longrightarrow> fetch_all S M 0 = Some S"
  using fetch_all_drop [of M 0 S] by simp

theorem fetch_all_reconstructs_witness:
  "(0::rat) < 2 \<and> fetch_all ''abcde'' 2 0 = Some ''abcde''"
  using fetch_all_reconstructs [of 2 "''abcde''"] by simp

section \<open>Properties of the compression stage\<close>

lemma space_facts [simp]:
  "is_space chr_sp" "is_space chr_nl" "\<not> is_space chr_gt" "\<not> is_space chr_lt"
  by (simp_all add: is_space_def)

lemma gap_before_tag_Cons:
  "gap_before_tag (c # cs) =
     (is_space c \<and> (gap_before_tag cs \<or> (case cs of [] \<Rightarrow> False | d # _ \<Rightarrow> d = chr_lt)))"
  by (cases cs) (auto simp: gap_before_tag_def split: list.splits)

lemma gap_before_tag_Nil [simp]: "\<not> gap_before_tag []"
  by (simp add: gap_before_tag_def)

lemma hd_remove: "remove_between_tags cs = [] \<longleftrightarrow> cs = []"
  "cs \<noteq> [] \<Longrightarrow> hd (remove_between_tags cs) = hd cs"
  by (cases cs; simp)+

lemma gap_remove: "gap_before_tag (remove_between_tags cs) = gap_before_tag cs"
proof (induction cs)
  case Nil
  then show ?case by simp
next
  case (Cons c cs)
  show ?case
  proof (cases "is_space c")
    case False
    then show ?thesis
      by (auto simp: gap_before_tag_Cons)
  next
    case True
    then have "c \<noteq> chr_gt" by auto
    then have r: "remove_between_tags (c # cs) = c # remove_between_tags cs" by simp
    have "(case remove_between_tags cs of [] \<Rightarrow> False | d # _ \<Rightarrow> d = chr_lt)
          = (case cs of [] \<Rightarrow> False | d # _ \<Rightarrow> d = chr_lt)"
      by (cases cs) auto
    then show ?thesis
      unfolding r gap_before_tag_Cons [of c] using Cons.IH by simp
  qed
qed

lemma tight_remove: "tight (remove_between_tags s)"
proof (induction s rule: remove_between_tags.induct)
  case 1
  then show ?case by simp
next
  case (2 c cs)
  show ?case
  proof (cases "c = chr_gt \<and> gap_before_tag cs")
    case True
    then show ?thesis using 2 by (simp add: gap_before_tag_Cons)
  next
    case False
    then show ?thesis using 2 by (auto simp: gap_remove)
  qed
qed

lemma remove_tight: "tight u \<Longrightarrow> remove_between_tags u = u"
  by (induction u) auto

lemma tight_dropWhile: "tight u \<Longrightarrow> tight (dropWhile P u)"
  by (induction u) auto

lemma dropWhile_Cons_head: "dropWhile P xs = a # list \<Longrightarrow> \<not> P a"
  by (induction xs) (auto split: if_splits)

lemma dropWhile_idem: "dropWhile P (dropWhile P xs) = dropWhile P xs"
  by (induction xs) auto

lemma collapse_head:
  "case collapse_whitespace (dropWhile is_space cs) of [] \<Rightarrow> True | d # _ \<Rightarrow> \<not> is_space d"
proof (cases "dropWhile is_space cs")
  case Nil
  then show ?thesis by (simp del: dropWhile_eq_Nil_conv)
next
  case (Cons a list)
  then have "\<not> is_space a" by (rule dropWhile_Cons_head)
  then show ?thesis using Cons by (simp del: dropWhile_eq_Nil_conv)
qed

lemma gap_collapse:
  assumes g: "gap_before_tag (collapse_whitespace cs)"
  shows "gap_before_tag cs"
proof (cases cs)
  case Nil
  then show ?thesis using g by simp
next
  case (Cons c cs')
  show ?thesis
  proof (cases "is_space c")
    case False
    then show ?thesis using g Cons by (simp add: gap_before_tag_Cons)
  next
    case True
    let ?v = "dropWhile is_space cs'"
    have c: "collapse_whitespace cs = chr_sp # collapse_whitespace ?v"
      using True Cons by simp
    have nv: "\<not> gap_before_tag (collapse_whitespace ?v)"
      using collapse_head [of cs']
      by (cases "collapse_whitespace ?v") (simp_all add: gap_before_tag_Cons)
    have "case collapse_whitespace ?v of [] \<Rightarrow> False | d # _ \<Rightarrow> d = chr_lt"
      using g nv unfolding c gap_before_tag_Cons by simp
    then have "case ?v of [] \<Rightarrow> False | d # _ \<Rightarrow> d = chr_lt"
      by (cases ?v) (auto split: if_splits simp del: dropWhile_eq_Nil_conv)
    then show ?thesis
      using True Cons by (simp add: gap_before_tag_def)
  qed
qed

lemma tight_collapse: "tight u \<Longrightarrow> tight (collapse_whitespace u)"
proof (induction u rule: collapse_whitespace.induct)
  case 1
  then show ?case by simp
next
  case (2 c cs)
  show ?case
  proof (cases "is_space c")
    case True
    then have "c \<noteq> chr_gt" by auto
    moreover have "tight (dropWhile is_space cs)"
      using 2 by (simp add: tight_dropWhile)
    ultimately show ?thesis using 2 True by simp
  next
    case False
    then show ?thesis using 2 by (auto dest: gap_collapse)
  qed
qed

lemma single_spaced_collapse: "single_spaced (collapse_whitespace u)"
proof (induction u rule: collapse_whitespace.induct)
  case 1
  then show ?case by simp
next
  case (2 c cs)
  show ?case
  proof (cases "is_space c")
    case True
    then show ?thesis using 2 collapse_head [of cs] by simp
  next
    case False
    then show ?thesis using 2 by simp
  qed
qed

lemma collapse_single_spaced: "single_spaced u \<Longrightarrow> collapse_whitespace u = u"
proof (induction u rule: collapse_whitespace.induct)
  case 1
  then show ?case by simp
next
  case (2 c cs)
  show ?case
  proof (cases "is_space c")
    case True
    then have "dropWhile is_space cs = cs"
      using 2(3) by (cases cs) auto
    then show ?thesis using 2 True by simp
  next
    case False
    then show ?thesis using 2 by simp
  qed
qed

lemma single_spaced_dropWhile: "single_spaced u \<Longrightarrow> single_spaced (dropWhile P u)"
  by (induction u) auto

lemma gap_append: "gap_before_tag cs \<Longrightarrow> gap_before_tag (cs @ v)"
proof (induction cs)
  case Nil
  then show ?case by simp
next
  case (Cons c cs)
  from Cons.prems have c: "is_space c"
    and d: "gap_before_tag cs \<or> (case cs of [] \<Rightarrow> False | d # _ \<Rightarrow> d = chr_lt)"
    unfolding gap_before_tag_Cons [of c cs] by simp_all
  from d have "gap_before_tag (cs @ v) \<or> (case cs @ v of [] \<Rightarrow> False | d # _ \<Rightarrow> d = chr_lt)"
  proof
    assume "gap_before_tag cs"
    then show ?thesis using Cons.IH by simp
  next
    assume "case cs of [] \<Rightarrow> False | d # _ \<Rightarrow> d = chr_lt"
    then show ?thesis by (cases cs) simp_all
  qed
  with c show ?case
    unfolding append_Cons gap_before_tag_Cons [of c "cs @ v"] by simp
qed

lemma tight_prefix: "tight (p @ w) \<Longrightarrow> tight p"
proof (induction p)
  case Nil
  then show ?case by simp
next
  case (Cons c p)
  then have "\<not> (c = chr_gt \<and> gap_before_tag (p @ w))" "tight p"
    by simp_all
  then show ?case
    using gap_append [of p w] by auto
qed

lemma single_spaced_prefix: "single_spaced (p @ w) \<Longrightarrow> single_spaced p"
proof (induction p)
  case Nil
  then show ?case by simp
next
  case (Cons c p)
  then show ?case
    by (cases p) simp_all
qed

lemma trim_end_prefix: "\<exists>w. u = rev (dropWhile P (rev u)) @ w"
proof -
  have "rev (rev u) = rev (takeWhile P (rev u) @ dropWhile P (rev u))"
    by (simp only: takeWhile_dropWhile_id)
  then have "u = rev (dropWhile P (rev u)) @ rev (takeWhile P (rev u))"
    by (simp only: rev_append rev_rev_ident)
  then show ?thesis ..
qed

lemma tight_trim:
  assumes "tight u"
  shows "tight (trim u)"
proof -
  obtain w where "dropWhile is_space u = trim u @ w"
    using trim_end_prefix [of "dropWhile is_space u" is_space] unfolding trim_def by blast
  moreover have "tight (dropWhile is_space u)"
    using assms by (rule tight_dropWhile)
  ultimately show ?thesis
    using tight_prefix [of "trim u" w] by simp
qed

lemma single_spaced_trim:
  assumes "single_spaced u"
  shows "single_spaced (trim u)"
proof -
  obtain w where "dropWhile is_space u = trim u @ w"
    using trim_end_prefix [of "dropWhile is_space u" is_space] unfolding trim_def by blast
  moreover have "single_spaced (dropWhile is_space u)"
    using assms by (rule single_spaced_dropWhile)
  ultimately show ?thesis
    using single_spaced_prefix [of "trim u" w] by simp
qed

lemma dropWhile_fix: "xs = [] \<or> \<not> P (hd xs) \<Longrightarrow> dropWhile P xs = xs"
  by (cases xs) auto

lemma dropWhile_head: "dropWhile P xs = [] \<or> \<not> P (hd (dropWhile P xs))"
  by (induction xs) auto

lemma trim_trim: "trim (trim u) = trim u"
proof -
  define w where "w = dropWhile is_space u"
  define p where "p = rev (dropWhile is_space (rev w))"
  obtain t where t: "w = p @ t"
    using trim_end_prefix [of w is_space] unfolding p_def by blast
  have hw: "w = [] \<or> \<not> is_space (hd w)"
    unfolding w_def by (rule dropWhile_head)
  have "p = [] \<or> \<not> is_space (hd p)"
  proof (cases "p = []")
    case True
    then show ?thesis by simp
  next
    case False
    then have "hd w = hd p" "w \<noteq> []"
      using t by simp_all
    then show ?thesis using hw by simp
  qed
  then have a: "dropWhile is_space p = p"
    by (rule dropWhile_fix)
  have b: "dropWhile is_space (rev p) = rev p"
    unfolding p_def by (simp only: rev_rev_ident dropWhile_idem)
  have "trim u = p"
    by (simp only: trim_def p_def w_def)
  moreover have "trim p = p"
    by (simp only: trim_def a b rev_rev_ident)
  ultimately show ?thesis by simp
qed

lemma set_trim: "x \<in> set (trim u) \<Longrightarrow> x \<in> set u"
proof -
  assume "x \<in> set (trim u)"
  then have "x \<in> set (dropWhile is_space (rev (dropWhile is_space u)))"
    by (simp add: trim_def)
  then have "x \<in> set (rev (dropWhile is_space u))"
    by (rule set_dropWhileD)
  then have "x \<in> set (dropWhile is_space u)"
    by simp
  then show ?thesis
    by (rule set_dropWhileD)
qed

lemma spaces_collapse: "c \<in> set (collapse_whitespace u) \<Longrightarrow> is_space c \<Longrightarrow> c = chr_sp"
  by (induction u rule: collapse_whitespace.induct) (auto split: if_splits dest: set_dropWhileD)

lemma apply_compression_spaces:
  assumes "is_space c" "c \<noteq> chr_sp"
  shows "c \<notin> set (apply_compression s)"
proof
  assume "c \<in> set (apply_compression s)"
  then have "c \<in> set (collapse_whitespace (remove_between_tags s))"
    unfolding apply_compression_def by (rule set_trim)
  then have "c = chr_sp"
    using assms(1) by (rule spaces_collapse)
  then show False
    using assms(2) by simp
qed

lemma apply_compression_idem:
  "apply_compression (apply_compression s) = apply_compression s"
proof -
  let ?c = "collapse_whitespace (remove_between_tags s)"
  have t: "tight (trim ?c)"
    by (intro tight_trim tight_collapse tight_remove)
  have s: "single_spaced (trim ?c)"
    by (intro single_spaced_trim single_spaced_collapse)
  show ?thesis
    unfolding apply_compression_def
    by (simp only: remove_tight [OF t] collapse_single_spaced [OF s] trim_trim)
qed

text \<open>
  C8.  For every input text, the output of the compression stage contains no line
  feed (and no carriage return, line separator or paragraph separator either), and the
  stage is idempotent: applying it to its own output changes nothing.
\<close>

theorem apply_compression_no_newline_idempotent:
  "chr_nl \<notin> set (apply_compression s) \<and>
   0x0D \<notin> set (apply_compression s) \<and>
   0x2028 \<notin> set (apply_compression s) \<and>
   0x2029 \<notin> set (apply_compression s) \<and>
   apply_compression (apply_compression s) = apply_compression s"
proof (intro conjI)
  show "chr_nl \<notin> set (apply_compression s)"
    by (rule apply_compression_spaces) (simp_all add: is_space_def)
  show "0x0D \<notin> set (apply_compression s)"
    by (rule apply_compression_spaces) (simp_all add: is_space_def)
  show "0x2028 \<notin> set (apply_compression s)"
    by (rule apply_compression_spaces) (simp_all add: is_space_def)
  show "0x2029 \<notin> set (apply_compression s)"
    by (rule apply_compression_spaces) (simp_all add: is_space_def)
  show "apply_compression (apply_compression s) = apply_compression s"
    by (rule apply_compression_idem)
qed

section \<open>Properties of the presets\<close>

text \<open>
  C9.  In \<open>handle\<close>, a preset name outside \<open>full\<close>, \<open>minimal\<close>, \<open>structure\<close>,
  \<open>content\<close> is treated as \<open>full\<close> is: the caller's options pass through unchanged
  (the branch \<open>default\<close>), and no branch rejects the call.
\<close>

theorem unknown_preset:
  "p \<notin> set [''full'', ''minimal'', ''structure'', ''content''] \<Longrightarrow>
   finalParams (args\<lparr>preset := Some p\<rparr>) = args\<lparr>preset := Some p\<rparr> \<and>
   finalParams (args\<lparr>preset := Some ''full''\<rparr>) = args\<lparr>preset := Some ''full''\<rparr> \<and>
   finalParams (args\<lparr>preset := Some p\<rparr>)
     = (finalParams (args\<lparr>preset := Some ''full''\<rparr>))\<lparr>preset := Some p\<rparr>"
  by (simp add: finalParams_def)

theorem unknown_preset_witness:
  "finalParams
     \<lparr> compress = Some False, excludeTags = Some [''nav''], includeComments = None,
       prettyPrint = None, selector = None, maxLength = Some 50, offset = None,
       headOnly = None, bodyOnly = None, preset = Some ''fancy'' \<rparr>
   = \<lparr> compress = Some False, excludeTags = Some [''nav''], includeComments = None,
       prettyPrint = None, selector = None, maxLength = Some 50, offset = None,
       headOnly = None, bodyOnly = None, preset = Some ''fancy'' \<rparr>"
  using unknown_preset [of "''fancy''"
      "\<lparr> compress = Some False, excludeTags = Some [''nav''], includeComments = None,
         prettyPrint = None, selector = None, maxLength = Some 50, offset = None,
         headOnly = None, bodyOnly = None, preset = None \<rparr>"]
  by simp

section \<open>Properties of the Request Recorder and the Cookie Matcher\<close>

lemma js_slice_tail: "js_slice (c # cs) 1 None = cs"
  by (simp add: js_slice_def ToIntegerOrInfinity_def Let_def)

lemma cookie_matches_suffix:
  "cookie_matches h c
   = endsWith h (if startsWith (domain c) ''.'' then tl (domain c) else domain c)"
proof (cases "startsWith (domain c) ''.''")
  case True
  then obtain d where d: "domain c = CHR ''.'' # d"
    by (cases "domain c") (auto simp: startsWith_def)
  have "h = CHR ''.'' # d \<Longrightarrow> endsWith h d"
    by (simp add: endsWith_def)
  then show ?thesis
    using True d by (auto simp: cookie_matches_def js_slice_tail)
next
  case False
  have "endsWith (domain c) (domain c)"
    by (simp add: endsWith_def)
  then show ?thesis
    using False by (auto simp: cookie_matches_def js_slice_tail)
qed

text \<open>
  C2.  The claim is that a cookie is matched exactly when the host name equals its
  domain or ends with the dotted domain, so never for an unrelated host such as
  \<open>badexample.com\<close> against the domain \<open>example.com\<close>.  The code builds the dotted
  domain and then removes the dot again with \<open>slice(1)\<close>, so the suffix test runs on
  the undotted text (\<open>cookie_matches_suffix\<close>), and the cookie of \<open>example.com\<close> is
  matched for the host \<open>badexample.com\<close>.
\<close>

theorem cookie_matches_unrelated_host:
  "cookiesForCurrentPage (Some ''badexample.com'')
     [\<lparr> name = ''sid'', value = ''1'', domain = ''example.com'', path = ''/'',
        httpOnly = False, secure = False \<rparr>]
   = Inr [\<lparr> name = ''sid'', value = ''1'', domain = ''example.com'', path = ''/'',
            httpOnly = False, secure = False \<rparr>] \<and>
   ''badexample.com'' \<noteq> ''example.com'' \<and>
   \<not> endsWith ''badexample.com'' ''.example.com''"
  by (simp add: cookiesForCurrentPage_def cookie_matches_def startsWith_def endsWith_def
      js_slice_def ToIntegerOrInfinity_def Let_def)

text \<open>
  C3.  The claim is that the snapshot is taken from the first request of resource
  type \<open>document\<close> and that later ones do not replace it.  The listener assigns
  \<open>requestInfo\<close> at every document request, so the last one stays: after the main
  document, a style sheet and the document of a frame, the snapshot is the frame's.
\<close>

theorem captureRequest_last_document_wins:
  "captured_requestInfo True ''http://example.com/''
     [\<lparr> url = ''http://example.com/'', method = ''GET'', headers = [], postData = None,
        resourceType = ''document'' \<rparr>,
      \<lparr> url = ''http://example.com/style.css'', method = ''GET'', headers = [],
        postData = None, resourceType = ''stylesheet'' \<rparr>,
      \<lparr> url = ''http://ads.example.net/frame'', method = ''GET'', headers = [],
        postData = None, resourceType = ''document'' \<rparr>]
   = Some \<lparr> url = ''http://ads.example.net/frame'', method = ''GET'', headers = [],
            postData = None \<rparr>"
  by (simp add: captured_requestInfo_def captureRequest_def)

section \<open>Properties of the Curl Synthesizer\<close>

lemma header_loop:
  "foldl (\<lambda>parts (key, v). if P key then parts @ f key v else parts) acc hs
   = acc @ concat (map (\<lambda>(key, v). f key v) (filter (\<lambda>(key, v). P key) hs))"
  by (induction hs arbitrary: acc) auto

lemma toLowerCase_Cookie: "toLowerCase ''Cookie'' = ''cookie''"
  by code_simp

lemma filter_update_Cookie:
  "filter (\<lambda>(key, v). toLowerCase key \<notin> set skipHeaders) (AList.update ''Cookie'' c hs)
   = filter (\<lambda>(key, v). toLowerCase key \<notin> set skipHeaders) hs"
proof (induction hs)
  case Nil
  show ?case by (simp add: toLowerCase_Cookie skipHeaders_def)
next
  case (Cons p hs)
  obtain k v where p: "p = (k, v)" by (cases p)
  show ?case
  proof (cases "k = ''Cookie''")
    case True
    then show ?thesis using p by (simp add: toLowerCase_Cookie skipHeaders_def)
  next
    case False
    then show ?thesis using p Cons.IH by simp
  qed
qed

lemma buildResponse_skip:
  "filter (\<lambda>(key, v). toLowerCase key \<notin> set skipHeaders) (res_headers (buildResponse ri page_url cs))
   = filter (\<lambda>(key, v). toLowerCase key \<notin> set skipHeaders) (captured_headers ri)"
  by (simp add: buildResponse_def Let_def filter_update_Cookie)

text \<open>
  C4, as the spec states it, fails when the captured headers contain a \<open>cookie\<close>
  header and a cookie of the jar matches: the header loop skips the captured header,
  and the aggregated \<open>-H 'Cookie: sid=1'\<close> is emitted all the same.
\<close>

theorem curl_cookie_header_present_counterexample:
  "getRequestInfo True ''http://example.com/'' (\<lambda>u. Some ''example.com'')
     [\<lparr> url = ''http://example.com/'', method = ''GET'',
        headers = [(''cookie'', ''old=0'')], postData = None,
        resourceType = ''document'' \<rparr>]
     [\<lparr> name = ''sid'', value = ''1'', domain = ''example.com'', path = ''/'',
        httpOnly = False, secure = False \<rparr>]
   = Inr (\<lparr> res_url = ''http://example.com/'', res_method = ''GET'',
            res_headers = [(''cookie'', ''old=0'')],
            cookies = [\<lparr> name = ''sid'', value = ''1'', domain = ''example.com'',
                         path = ''/'', httpOnly = False, secure = False \<rparr>],
            res_postData = None \<rparr>,
          ''curl '' @ quoted ''http://example.com/'' @ '' -H '' @ quoted ''Cookie: sid=1'')"
  by code_simp

text \<open>
  C4 (amended).  In the curl command of a response, the header loop emits \<open>-H\<close> for
  the captured headers except \<open>cookie\<close> and \<open>content-length\<close> (case-insensitive), so
  neither a captured cookie header nor the \<open>Cookie\<close> entry that \<open>handle\<close> adds to the
  response's headers is emitted by the loop; the aggregated \<open>-H 'Cookie: ...'\<close>
  (the \<open>name=value\<close> pairs of the matched cookies, in their order, joined with \<open>; \<close>)
  follows the header arguments if and only if the matched cookie sequence is not
  empty, whether or not the captured headers contain a cookie header; after it comes
  at most one \<open>-d\<close> argument.
\<close>

theorem curl_cookie_argument:
  assumes "generateCurlCommand_parts (buildResponse requestInfo page_url matched) = Inr ps"
  shows "\<exists>front data.
           ps = front
                @ concat (map (\<lambda>(key, v). [''-H'', quoted (key @ '': '' @ v)])
                           (filter (\<lambda>(key, v). toLowerCase key \<notin> set skipHeaders)
                              (captured_headers requestInfo)))
                @ (if matched = [] then []
                   else [''-H'', quoted (''Cookie: '' @ cookieString matched)])
                @ data
           \<and> front = ''curl'' #
                (if res_method (buildResponse requestInfo page_url matched) \<noteq> ''GET''
                 then [''-X'', res_method (buildResponse requestInfo page_url matched)] else [])
                @ [quoted (resolved_url requestInfo page_url)]
           \<and> (data = [] \<or> (\<exists>d. data = [''-d'', d]))"
proof -
  let ?r = "buildResponse requestInfo page_url matched"
  have c: "cookies ?r = matched" and u: "res_url ?r = resolved_url requestInfo page_url"
    by (simp_all add: buildResponse_def Let_def)
  show ?thesis
    using assms
    unfolding generateCurlCommand_parts_def Let_def header_loop buildResponse_skip c u
    by (auto split: option.splits list.splits if_splits)
qed

theorem curl_cookie_argument_witness:
  "generateCurlCommand_parts
     (buildResponse
        (Some \<lparr> url = ''http://example.com/'', method = ''GET'',
                 headers = [(''cookie'', ''old=0''), (''accept'', ''text/html'')],
                 postData = None \<rparr>)
        ''http://example.com/''
        [\<lparr> name = ''sid'', value = ''1'', domain = ''example.com'', path = ''/'',
           httpOnly = False, secure = False \<rparr>])
   = Inr [''curl'', quoted ''http://example.com/'', ''-H'', quoted ''accept: text/html'',
          ''-H'', quoted ''Cookie: sid=1''] \<and>
   (\<exists>front data.
      [''curl'', quoted ''http://example.com/'', ''-H'', quoted ''accept: text/html'',
       ''-H'', quoted ''Cookie: sid=1'']
      = front @ [''-H'', quoted ''accept: text/html''] @ [''-H'', quoted ''Cookie: sid=1'']
        @ data
      \<and> front = [''curl'', quoted ''http://example.com/'']
      \<and> (data = [] \<or> (\<exists>d. data = [''-d'', d])))"
proof -
  let ?ri = "Some \<lparr> url = ''http://example.com/'', method = ''GET'',
                 headers = [(''cookie'', ''old=0''), (''accept'', ''text/html'')],
                 postData = None \<rparr>"
  let ?cs = "[\<lparr> name = ''sid'', value = ''1'', domain = ''example.com'', path = ''/'',
           httpOnly = False, secure = False \<rparr>]"
  have h: "generateCurlCommand_parts (buildResponse ?ri ''http://example.com/'' ?cs)
           = Inr [''curl'', quoted ''http://example.com/'', ''-H'', quoted ''accept: text/html'',
                  ''-H'', quoted ''Cookie: sid=1'']"
    by code_simp
  have f: "filter (\<lambda>(key, v). toLowerCase key \<notin> set skipHeaders) (captured_headers ?ri)
           = [(''accept'', ''text/html'')]"
    by code_simp
  have c: "cookieString ?cs = ''sid=1''"
    by code_simp
  have m: "res_method (buildResponse ?ri ''http://example.com/'' ?cs) = ''GET''"
    by code_simp
  have u: "resolved_url ?ri ''http://example.com/'' = ''http://example.com/''"
    by code_simp
  show ?thesis
    using curl_cookie_argument [OF h] h unfolding f c m u by simp
qed

text \<open>
  C5.  The claim is that the verbatim \<open>-d\<close> form is used only for the single
  synthetic field \<open>raw\<close>, and that a form-encoded body of several fields whose first
  field is named \<open>raw\<close> is emitted as the percent-encoded pairs of all fields.  The
  code tests \<open>params[0].name === 'raw'\<close> only: for the form body \<open>raw=1&b=2\<close> it
  emits \<open>-d '1'\<close> and drops the field \<open>b\<close>.
\<close>

theorem curl_raw_first_field_only:
  "getRequestInfo True ''http://example.com/form'' (\<lambda>u. Some ''example.com'')
     [\<lparr> url = ''http://example.com/form'', method = ''POST'',
        headers = [(''content-type'', ''application/x-www-form-urlencoded'')],
        postData = Some ''raw=1&b=2'', resourceType = ''document'' \<rparr>]
     []
   = Inr (\<lparr> res_url = ''http://example.com/form'', res_method = ''POST'',
            res_headers = [(''content-type'', ''application/x-www-form-urlencoded'')],
            cookies = [],
            res_postData =
              Some \<lparr> contentType = ''application/x-www-form-urlencoded'',
                     params = [(''raw'', ''1''), (''b'', ''2'')] \<rparr> \<rparr>,
          ''curl -X POST '' @ quoted ''http://example.com/form'' @ '' -H ''
            @ quoted ''content-type: application/x-www-form-urlencoded''
            @ '' -d '' @ quoted ''1'')"
  by code_simp

text \<open>
  C10.  The claim is that curl synthesis is total for every non-empty post data.  The
  form-encoded body \<open>&\<close> parses to the empty parameter list, \<open>params[0]\<close> is
  \<open>undefined\<close>, and reading its \<open>name\<close> throws: the tool call ends with a
  \<open>TypeError\<close> and no command.
\<close>

theorem curl_empty_params_throws:
  "parsePostData ''&'' (Some ''application/x-www-form-urlencoded'') = [] \<and>
   getRequestInfo True ''http://example.com/form'' (\<lambda>u. Some ''example.com'')
     [\<lparr> url = ''http://example.com/form'', method = ''POST'',
        headers = [(''content-type'', ''application/x-www-form-urlencoded'')],
        postData = Some ''&'', resourceType = ''document'' \<rparr>]
     []
   = Inl TypeError"
  by code_simp

end
